theory Spec2Isabelle
  imports Complex_Main
begin

section \<open>Python strings\<close>

text \<open>
  A Python \<open>str\<close> is modelled as a \<open>string\<close>: one \<open>char\<close> per character of the text
  (characters with code point below 256). \<open>isspace\<close> is the whitespace class shared by
  \<open>str.split()\<close>, \<open>str.strip()\<close> and the regular expression class \<open>\s\<close> on that range:
  tab, line feed, vertical tab, form feed, carriage return, the four separators
  0x1C-0x1F, space, NEL (0x85) and the no-break space (0xA0).
\<close>

definition isspace :: "char \<Rightarrow> bool" where
  "isspace c = (c = CHR 0x09 \<or> c = CHR 0x0A \<or> c = CHR 0x0B \<or> c = CHR 0x0C \<or> c = CHR 0x0D
     \<or> c = CHR 0x1C \<or> c = CHR 0x1D \<or> c = CHR 0x1E \<or> c = CHR 0x1F \<or> c = CHR 0x20
     \<or> c = CHR 0x85 \<or> c = CHR 0xA0)"

definition lstrip :: "string \<Rightarrow> string" where
  "lstrip s = dropWhile isspace s"

definition rstrip :: "string \<Rightarrow> string" where
  "rstrip s = rev (dropWhile isspace (rev s))"

text \<open>\<open>str.strip()\<close>: leading and trailing whitespace removed.\<close>

definition strip :: "string \<Rightarrow> string" where
  "strip s = lstrip (rstrip s)"

text \<open>\<open>str.split()\<close> without arguments: the maximal runs of non-whitespace characters.\<close>

function split :: "string \<Rightarrow> string list" where
  "split s =
     (case dropWhile isspace s of
        [] \<Rightarrow> []
      | c # cs \<Rightarrow> (c # takeWhile (\<lambda>x. \<not> isspace x) cs) # split (dropWhile (\<lambda>x. \<not> isspace x) cs))"
  by pat_completeness auto

lemma length_dropWhile_less_Cons:
  "dropWhile P s = c # cs \<Longrightarrow> length (dropWhile Q cs) < length s"
proof -
  assume h: "dropWhile P s = c # cs"
  have "length (dropWhile Q cs) \<le> length cs" by (rule length_dropWhile_le)
  also have "length cs < length (dropWhile P s)" using h by simp
  also have "length (dropWhile P s) \<le> length s" by (rule length_dropWhile_le)
  finally show ?thesis .
qed

termination split
  by (relation "measure length") (auto dest: length_dropWhile_less_Cons)

declare split.simps [simp del]

text \<open>\<open>sep.join(parts)\<close>.\<close>

fun join :: "string \<Rightarrow> string list \<Rightarrow> string" where
  "join sep [] = []"
| "join sep [w] = w"
| "join sep (w # v # ws) = w @ sep @ join sep (v # ws)"

text \<open>
  A slice bound of \<open>xs[start:end]\<close> on a sequence of length \<open>n\<close>: a negative bound counts
  from the end, and every bound is clamped to \<open>0..n\<close>.
\<close>

definition slice_index :: "nat \<Rightarrow> int \<Rightarrow> nat" where
  "slice_index n i = (if i < 0 then nat (max 0 (int n + i)) else min n (nat i))"

definition slice :: "'a list \<Rightarrow> int \<Rightarrow> int \<Rightarrow> 'a list" where
  "slice xs start end =
     (let lo = slice_index (length xs) start; hi = slice_index (length xs) end
      in take (hi - lo) (drop lo xs))"

text \<open>\<open>str(n)\<close> of an integer: decimal digits, a minus sign before a negative number.\<close>

fun str_nat :: "nat \<Rightarrow> string" where
  "str_nat n =
     (if n < 10 then [''0123456789'' ! n]
      else str_nat (n div 10) @ [''0123456789'' ! (n mod 10)])"

declare str_nat.simps [simp del]

definition str_int :: "int \<Rightarrow> string" where
  "str_int i = (if i < 0 then CHR ''-'' # str_nat (nat (- i)) else str_nat (nat i))"

section \<open>Chunks and citations\<close>

record Chunk =
  "text" :: string
  page_num :: int
  chunk_id :: int

text \<open>\<open>Chunk.get_citation\<close>: the token \<open>[p{page}:c{chunk}]\<close>.\<close>

definition get_citation :: "Chunk \<Rightarrow> string" where
  "get_citation c = ''[p'' @ str_int (page_num c) @ '':c'' @ str_int (chunk_id c) @ '']''"

section \<open>PDFProcessor\<close>

record PDFProcessor =
  chunk_size :: int
  chunk_overlap :: int

text \<open>The constructor stores both parameters as given.\<close>

definition PDFProcessor_init :: "int \<Rightarrow> int \<Rightarrow> PDFProcessor" where
  "PDFProcessor_init csize coverlap = \<lparr>chunk_size = csize, chunk_overlap = coverlap\<rparr>"

subsection \<open>Regular expressions of \<open>clean_text\<close>\<close>

text \<open>
  Matching is case-insensitive (\<open>re.IGNORECASE\<close>); every letter of the patterns is an
  ASCII letter, so two characters match when their ASCII lower-case forms agree.
\<close>

definition lower :: "char \<Rightarrow> char" where
  "lower c = (if 65 \<le> (of_char c :: nat) \<and> (of_char c :: nat) \<le> 90
              then char_of (of_char c + (32 :: nat)) else c)"

text \<open>
  A matcher takes the text from the position where the match is tried and returns the
  text after the match, or \<open>None\<close> when the pattern does not match there.
  \<open>lit\<close> matches a literal word. \<open>ws_plus\<close> is \<open>\s+\<close> and \<open>ws_star\<close> is \<open>\s*\<close>: both are
  greedy, and in these patterns what follows them is a letter or the end of the
  pattern, so giving back whitespace never turns a failed match into a successful one.
\<close>

fun lit :: "string \<Rightarrow> string \<Rightarrow> string option" where
  "lit [] s = Some s"
| "lit (p # ps) [] = None"
| "lit (p # ps) (c # cs) = (if lower p = lower c then lit ps cs else None)"

definition ws_star :: "string \<Rightarrow> string option" where
  "ws_star s = Some (dropWhile isspace s)"

definition ws_plus :: "string \<Rightarrow> string option" where
  "ws_plus s = (case s of [] \<Rightarrow> None | c # cs \<Rightarrow> if isspace c then Some (dropWhile isspace cs) else None)"

text \<open>A pattern that is a sequence of parts matches them one after the other.\<close>

fun seq :: "(string \<Rightarrow> string option) list \<Rightarrow> string \<Rightarrow> string option" where
  "seq [] s = Some s"
| "seq (m # ms) s = (case m s of None \<Rightarrow> None | Some r \<Rightarrow> seq ms r)"

text \<open>\<open>STRICTLY\s+CONFIDENTIAL\<close>\<close>

definition strictly_confidential :: "string \<Rightarrow> string option" where
  "strictly_confidential = seq [lit ''STRICTLY'', ws_plus, lit ''CONFIDENTIAL'']"

lemma lit_length: "lit p s = Some r \<Longrightarrow> length r + length p = length s"
  by (induction p s rule: lit.induct) (auto split: if_splits)

lemma ws_plus_length: "ws_plus s = Some r \<Longrightarrow> length r < length s"
  by (auto simp: ws_plus_def le_imp_less_Suc length_dropWhile_le split: list.splits if_splits)

lemma strictly_confidential_length:
  "strictly_confidential s = Some r \<Longrightarrow> length r < length s"
  by (auto simp: strictly_confidential_def split: option.splits
      dest!: lit_length ws_plus_length)

text \<open>
  The repetition \<open>(\s*STRICTLY\s+CONFIDENTIAL)*\<close>: as many further copies as follow, the
  text before a copy that fails to match being kept.
\<close>

function more_confidential :: "string \<Rightarrow> string" where
  "more_confidential s =
     (case strictly_confidential (dropWhile isspace s) of
        None \<Rightarrow> s
      | Some r \<Rightarrow> more_confidential r)"
  by pat_completeness auto

termination more_confidential
proof (relation "measure length")
  show "wf (measure length)" by simp
next
  fix s r
  assume "strictly_confidential (dropWhile isspace s) = Some r"
  then have "length r < length (dropWhile isspace s)"
    by (rule strictly_confidential_length)
  also have "\<dots> \<le> length s" by (rule length_dropWhile_le)
  finally show "(r, s) \<in> measure length" by simp
qed

declare more_confidential.simps [simp del]

text \<open>\<open>STRICTLY\s+CONFIDENTIAL(\s*STRICTLY\s+CONFIDENTIAL)*\<close>\<close>

definition watermark :: "string \<Rightarrow> string option" where
  "watermark s = map_option more_confidential (strictly_confidential s)"

text \<open>\<open>Home\s+outline\s+\<close>\<close>

definition home_outline :: "string \<Rightarrow> string option" where
  "home_outline = seq [lit ''Home'', ws_plus, lit ''outline'', ws_plus]"

text \<open>\<open>Hamburger\s+Menu\s+Icon\s+with\s+solid\s+fill\s*\<close>\<close>

definition hamburger :: "string \<Rightarrow> string option" where
  "hamburger =
     seq [lit ''Hamburger'', ws_plus, lit ''Menu'', ws_plus, lit ''Icon'', ws_plus,
          lit ''with'', ws_plus, lit ''solid'', ws_plus, lit ''fill'', ws_star]"

text \<open>
  \<open>re.sub(pattern, '', text)\<close>: the text is scanned from the left; where the pattern
  matches, the match is dropped and the scan goes on behind it, otherwise the character
  is kept. A match that consumes nothing deletes nothing.
\<close>

function re_sub_del :: "(string \<Rightarrow> string option) \<Rightarrow> string \<Rightarrow> string" where
  "re_sub_del m [] = []"
| "re_sub_del m (c # cs) =
     (case m (c # cs) of
        None \<Rightarrow> c # re_sub_del m cs
      | Some r \<Rightarrow> if length r < length (c # cs) then re_sub_del m r else c # re_sub_del m cs)"
  by pat_completeness auto

termination re_sub_del
  by (relation "measure (\<lambda>(m, s). length s)") auto

text \<open>\<open>re.sub(r'\s+', ' ', text)\<close>: every maximal run of whitespace becomes one space.\<close>

function collapse :: "string \<Rightarrow> string" where
  "collapse [] = []"
| "collapse (c # cs) =
     (if isspace c then CHR '' '' # collapse (dropWhile isspace cs) else c # collapse cs)"
  by pat_completeness auto

termination collapse
  by (relation "measure length") (auto simp: le_imp_less_Suc length_dropWhile_le)

subsection \<open>\<open>clean_text\<close>\<close>

definition clean_text :: "string \<Rightarrow> string" where
  "clean_text s =
     strip (collapse (re_sub_del hamburger (re_sub_del home_outline (re_sub_del watermark s))))"

subsection \<open>Page extraction\<close>

text \<open>
  What \<open>PdfReader\<close> gives for one page: the text \<open>page.extract_text()\<close> returns, or an
  exception raised by it.
\<close>

datatype page = Extracted string | ExtractRaises

text \<open>
  \<open>extract_text_by_page\<close>: pages are numbered from 1 (\<open>enumerate(reader.pages, start=1)\<close>);
  a page whose extraction raises, whose text is blank or whose cleaned text is empty is
  left out, and the page counter goes on.
\<close>

fun extract_from :: "int \<Rightarrow> page list \<Rightarrow> (int \<times> string) list" where
  "extract_from i [] = []"
| "extract_from i (ExtractRaises # ps) = extract_from (i + 1) ps"
| "extract_from i (Extracted t # ps) =
     (if strip t \<noteq> [] then
        (let cleaned_text = clean_text t
         in if cleaned_text \<noteq> [] then (i, cleaned_text) # extract_from (i + 1) ps
            else extract_from (i + 1) ps)
      else extract_from (i + 1) ps)"

definition extract_text_by_page :: "page list \<Rightarrow> (int \<times> string) list" where
  "extract_text_by_page pages = extract_from 1 pages"

subsection \<open>\<open>chunk_text\<close>\<close>

text \<open>
  The \<open>while start < len(words)\<close> loop of \<open>chunk_text\<close>. It may run forever, so its result
  is an option: \<open>None\<close> stands for a loop that never leaves.
\<close>

partial_function (option) chunk_loop ::
  "PDFProcessor \<Rightarrow> string list \<Rightarrow> int \<Rightarrow> int \<Rightarrow> int \<Rightarrow> Chunk list \<Rightarrow> Chunk list option" where
  "chunk_loop self words page cid start acc =
     (if start < int (length words) then
        (let end = start + chunk_size self;
             chunk_words = slice words start end;
             joined = join '' '' chunk_words
         in chunk_loop self words page (cid + 1)
              (start + (chunk_size self - chunk_overlap self))
              (acc @ [\<lparr>text = joined, page_num = page, chunk_id = cid\<rparr>]))
      else Some acc)"

declare chunk_loop.simps [code]

definition chunk_text :: "PDFProcessor \<Rightarrow> string \<Rightarrow> int \<Rightarrow> int \<Rightarrow> Chunk list option" where
  "chunk_text self t page start_chunk_id =
     (let words = split t
      in if words = [] then Some [] else chunk_loop self words page start_chunk_id 0 [])"

subsection \<open>\<open>process_pdf\<close>\<close>

text \<open>The loop over the pages, with its two variables \<open>all_chunks\<close> and \<open>chunk_counter\<close>.\<close>

fun process_pages ::
  "PDFProcessor \<Rightarrow> (int \<times> string) list \<Rightarrow> Chunk list \<Rightarrow> int \<Rightarrow> Chunk list option" where
  "process_pages self [] all_chunks chunk_counter = Some all_chunks"
| "process_pages self ((page, t) # pages) all_chunks chunk_counter =
     (case chunk_text self t page chunk_counter of
        None \<Rightarrow> None
      | Some page_chunks \<Rightarrow>
          process_pages self pages (all_chunks @ page_chunks)
            (chunk_counter + int (length page_chunks)))"

definition process_pdf :: "PDFProcessor \<Rightarrow> page list \<Rightarrow> Chunk list option" where
  "process_pdf self pdf = process_pages self (extract_text_by_page pdf) [] 0"

section \<open>VectorStore\<close>

text \<open>The exceptions of the modelled code.\<close>

datatype error = IndexError

text \<open>
  The collaborators outside the repository. \<open>reader\<close> is \<open>PdfReader\<close>: the pages of the
  file at a path. \<open>embed\<close> is the sentence-transformer model: the vector of one text;
  \<open>model.encode(texts)\<close> is the array with one such row per text. \<open>index_search\<close> is the
  FAISS inner-product index: given the stored rows, the query vector and \<open>top_k\<close>, the
  labels and scores it returns, best first (normalisation included). \<open>gemini\<close> and
  \<open>openai\<close> are the hosted models, \<open>getenv\<close> the environment, \<open>gemini_available\<close> and
  \<open>openai_available\<close> say whether the client packages can be set up, and \<open>path_exists\<close>
  is \<open>os.path.exists\<close>.
\<close>

record message =
  role :: string
  content :: string

text \<open>
  What a hosted model is asked: the context assembled from the retrieved chunks, the
  question and the window of the history sent along. The fixed instruction text around
  them is the same in every call and is left out.
\<close>

record request =
  req_context :: string
  req_query :: string
  req_history :: "message list"

text \<open>
  What comes back: an exception (with its message), or a response whose text may be
  missing (\<open>None\<close>).
\<close>

datatype reply = Raises string | Responds "string option"

record collaborators =
  reader :: "string \<Rightarrow> page list"
  embed :: "string \<Rightarrow> real list"
  index_search :: "real list list \<Rightarrow> real list \<Rightarrow> int \<Rightarrow> (int \<times> real) list"
  gemini :: "request \<Rightarrow> reply"
  openai :: "request \<Rightarrow> reply"
  getenv :: "string \<Rightarrow> string option"
  gemini_available :: bool
  openai_available :: bool
  path_exists :: "string \<Rightarrow> bool"

record VectorStore =
  index :: "real list list option"
  vs_chunks :: "Chunk list"
  dimension :: "nat option"

definition VectorStore_init :: VectorStore where
  "VectorStore_init = \<lparr>index = None, vs_chunks = [], dimension = None\<rparr>"

text \<open>
  \<open>build_index\<close>: \<open>embeddings\<close> has one row per chunk, and \<open>embeddings.shape[1]\<close> is the
  length of a row. An array of no rows has no second axis, and reading it raises
  \<open>IndexError\<close>. The exception leaves \<open>build_index\<close> and the constructor that called it,
  so no store is returned.
\<close>

definition build_index :: "collaborators \<Rightarrow> VectorStore \<Rightarrow> Chunk list \<Rightarrow> error + VectorStore" where
  "build_index ext self cks =
     (let texts = map text cks;
          embeddings = map (embed ext) texts
      in case embeddings of
           [] \<Rightarrow> Inl IndexError
         | row # _ \<Rightarrow>
             Inr (self\<lparr>vs_chunks := cks, dimension := Some (length row), index := Some embeddings\<rparr>))"

text \<open>
  \<open>chunks[idx]\<close>: an index from \<open>-len\<close> up to \<open>-1\<close> counts from the end, one outside
  \<open>-len..len-1\<close> raises \<open>IndexError\<close>.
\<close>

definition chunk_at :: "Chunk list \<Rightarrow> int \<Rightarrow> error + Chunk" where
  "chunk_at cks idx =
     (let n = int (length cks); j = (if idx < 0 then n + idx else idx)
      in if 0 \<le> j \<and> j < n then Inr (cks ! nat j) else Inl IndexError)"

text \<open>The loop of \<open>search\<close> over \<open>zip(indices[0], scores[0])\<close>.\<close>

fun collect_results :: "Chunk list \<Rightarrow> (int \<times> real) list \<Rightarrow> error + (Chunk \<times> real) list" where
  "collect_results cks [] = Inr []"
| "collect_results cks ((idx, score) # rest) =
     (if idx < int (length cks) then
        (case chunk_at cks idx of
           Inl e \<Rightarrow> Inl e
         | Inr c \<Rightarrow>
             (case collect_results cks rest of
                Inl e \<Rightarrow> Inl e
              | Inr results \<Rightarrow> Inr ((c, score) # results)))
      else collect_results cks rest)"

definition search ::
  "collaborators \<Rightarrow> VectorStore \<Rightarrow> string \<Rightarrow> int \<Rightarrow> error + (Chunk \<times> real) list" where
  "search ext self query k =
     (case index self of
        None \<Rightarrow> Inr []
      | Some rows \<Rightarrow> collect_results (vs_chunks self) (index_search ext rows (embed ext query) k))"

section \<open>LLMInterface\<close>

record LLMInterface =
  use_openai :: bool
  use_gemini :: bool

text \<open>Python truth of an optional string, and \<open>a or b\<close> on two of them.\<close>

definition truthy :: "string option \<Rightarrow> bool" where
  "truthy k = (case k of None \<Rightarrow> False | Some s \<Rightarrow> s \<noteq> [])"

definition or_else :: "string option \<Rightarrow> string option \<Rightarrow> string option" where
  "or_else a b = (if truthy a then a else b)"

text \<open>The constructor: Gemini when a key is there and the client can be set up, else
  OpenAI on the same terms, else the fallback mode.\<close>

definition LLMInterface_init ::
  "collaborators \<Rightarrow> string option \<Rightarrow> string option \<Rightarrow> LLMInterface" where
  "LLMInterface_init ext api_key gemini_key =
     (let openai_key = or_else api_key (getenv ext ''OPENAI_API_KEY'');
          gemini_key = or_else gemini_key (getenv ext ''GEMINI_API_KEY'')
      in if truthy gemini_key \<and> gemini_available ext then \<lparr>use_openai = False, use_gemini = True\<rparr>
         else if truthy openai_key \<and> openai_available ext then \<lparr>use_openai = True, use_gemini = False\<rparr>
         else \<lparr>use_openai = False, use_gemini = False\<rparr>)"

definition refusal :: string where
  "refusal = ''Not found in the document.''"

text \<open>
  \<open>_fallback_answer\<close>. Scores are modelled as reals, the threshold \<open>0.4\<close> as the real
  number.
\<close>

definition fallback_answer :: "(Chunk \<times> real) list \<Rightarrow> string" where
  "fallback_answer context_chunks =
     (case context_chunks of
        [] \<Rightarrow> refusal
      | (top_chunk, score) # _ \<Rightarrow>
          if score < 0.4 then refusal
          else (let citation = get_citation top_chunk;
                    snippet = (if length (text top_chunk) > 200
                               then take 200 (text top_chunk) @ ''...''
                               else text top_chunk)
                in citation @ '' '' @ snippet))"

text \<open>\<open>xs[-n:]\<close>: the last \<open>n\<close> elements, all of them when there are fewer.\<close>

definition last_n :: "nat \<Rightarrow> 'a list \<Rightarrow> 'a list" where
  "last_n n xs = drop (length xs - n) xs"

definition build_context :: "(Chunk \<times> real) list \<Rightarrow> string" where
  "build_context context_chunks =
     join [CHR 0x0A, CHR 0x0A] (map (\<lambda>(chunk, score). get_citation chunk @ '' '' @ text chunk) context_chunks)"

text \<open>
  A hosted model's answer inside \<open>try\<close>: the stripped text of the response. An exception
  of the call, or of \<open>.strip()\<close> on a missing text, is caught by \<open>except Exception\<close> and
  answered by \<open>_fallback_answer\<close>.
\<close>

definition try_model :: "reply \<Rightarrow> (Chunk \<times> real) list \<Rightarrow> string" where
  "try_model r context_chunks =
     (case r of
        Responds (Some t) \<Rightarrow> strip t
      | Responds None \<Rightarrow> fallback_answer context_chunks
      | Raises e \<Rightarrow> fallback_answer context_chunks)"

text \<open>
  \<open>generate_answer\<close> returns the answer; the second component lists the requests sent
  to a hosted model on the way.
\<close>

definition generate_answer ::
  "collaborators \<Rightarrow> LLMInterface \<Rightarrow> string \<Rightarrow> (Chunk \<times> real) list \<Rightarrow> message list
     \<Rightarrow> string \<times> request list" where
  "generate_answer ext self query context_chunks chat_history =
     (let req = \<lparr>req_context = build_context context_chunks, req_query = query,
                 req_history = last_n 10 chat_history\<rparr>
      in if use_gemini self then (try_model (gemini ext req) context_chunks, [req])
         else if use_openai self then (try_model (openai ext req) context_chunks, [req])
         else (fallback_answer context_chunks, []))"

section \<open>RAGSystem\<close>

record RAGSystem =
  pdf_path :: string
  top_k :: int
  pdf_processor :: PDFProcessor
  vector_store :: VectorStore
  llm :: LLMInterface
  chat_history :: "message list"
  chunks :: "Chunk list"

text \<open>
  The constructor. \<open>None\<close>: chunking never returns. \<open>Some (Inl e)\<close>: the constructor
  raises \<open>e\<close> and the caller gets no object. \<open>Some (Inr s)\<close>: the session \<open>s\<close>.
\<close>

definition RAGSystem_init ::
  "collaborators \<Rightarrow> string \<Rightarrow> int \<Rightarrow> int \<Rightarrow> int \<Rightarrow> string option \<Rightarrow> string option
     \<Rightarrow> (error + RAGSystem) option" where
  "RAGSystem_init ext path csize coverlap k gemini_key openai_key =
     (let processor = PDFProcessor_init csize coverlap;
          store = VectorStore_init;
          model = LLMInterface_init ext openai_key gemini_key
      in case process_pdf processor (reader ext path) of
           None \<Rightarrow> None
         | Some cks \<Rightarrow>
             Some (case build_index ext store cks of
                     Inl e \<Rightarrow> Inl e
                   | Inr store' \<Rightarrow>
                       Inr \<lparr>pdf_path = path, top_k = k, pdf_processor = processor,
                            vector_store = store', llm = model, chat_history = [],
                            chunks = cks\<rparr>))"

text \<open>The query sent to retrieval: in fallback mode the last user question of the four
  most recent messages is put before the query.\<close>

definition enhanced_query :: "RAGSystem \<Rightarrow> string \<Rightarrow> string" where
  "enhanced_query self query =
     (if chat_history self \<noteq> [] \<and> \<not> (use_openai (llm self) \<or> use_gemini (llm self)) then
        (let recent_user_msgs = filter (\<lambda>msg. role msg = ''user'') (last_n 4 (chat_history self))
         in if recent_user_msgs \<noteq> [] then content (last recent_user_msgs) @ '' '' @ query
            else query)
      else query)"

text \<open>
  \<open>answer_question\<close>: the answer, the session after the call and the requests sent to a
  hosted model during the call; \<open>Inl e\<close> when the call raises \<open>e\<close>.
\<close>

definition answer_question ::
  "collaborators \<Rightarrow> RAGSystem \<Rightarrow> string \<Rightarrow> error + (string \<times> RAGSystem \<times> request list)" where
  "answer_question ext self query =
     (case search ext (vector_store self) (enhanced_query self query) (top_k self) of
        Inl e \<Rightarrow> Inl e
      | Inr results \<Rightarrow>
          if results = [] then Inr (refusal, self, [])
          else (case generate_answer ext (llm self) query results (chat_history self) of
                  (answer, sent) \<Rightarrow>
                    Inr (answer,
                         self\<lparr>chat_history := chat_history self
                                @ [\<lparr>role = ''user'', content = query\<rparr>,
                                   \<lparr>role = ''assistant'', content = answer\<rparr>]\<rparr>,
                         sent)))"

text \<open>\<open>clear\<close> of the chat loop.\<close>

definition clear :: "RAGSystem \<Rightarrow> RAGSystem" where
  "clear self = self\<lparr>chat_history := []\<rparr>"

section \<open>The command line\<close>

record arguments =
  arg_pdf_path :: "string option"
  arg_chunk_size :: int
  arg_chunk_overlap :: int
  arg_top_k :: int

text \<open>
  \<open>main\<close> after \<open>parse_args\<close>: exit status 1 without a path, for a missing file or when
  the constructor raises; otherwise the chat loop is entered with the session.
\<close>

datatype outcome = Exit nat | ChatLoop RAGSystem

definition main :: "collaborators \<Rightarrow> arguments \<Rightarrow> outcome option" where
  "main ext args =
     (if \<not> truthy (arg_pdf_path args) then Some (Exit 1)
      else if \<not> path_exists ext (the (arg_pdf_path args)) then Some (Exit 1)
      else (case RAGSystem_init ext (the (arg_pdf_path args)) (arg_chunk_size args)
                   (arg_chunk_overlap args) (arg_top_k args) None None of
              None \<Rightarrow> None
            | Some (Inl e) \<Rightarrow> Some (Exit 1)
            | Some (Inr s) \<Rightarrow> Some (ChatLoop s)))"

section \<open>Concrete runs\<close>

text \<open>
  Collaborators for concrete runs: a reader that yields the given pages, an index that
  returns the given labels and scores, and hosted models that give the given reply.
\<close>

definition fixture :: "page list \<Rightarrow> (int \<times> real) list \<Rightarrow> reply \<Rightarrow> collaborators" where
  "fixture pages found r =
     \<lparr>reader = (\<lambda>_. pages), embed = (\<lambda>_. [1]), index_search = (\<lambda>_ _ _. found),
      gemini = (\<lambda>_. r), openai = (\<lambda>_. r), getenv = (\<lambda>_. None),
      gemini_available = True, openai_available = True, path_exists = (\<lambda>_. True)\<rparr>"

definition session :: "VectorStore \<Rightarrow> LLMInterface \<Rightarrow> message list \<Rightarrow> RAGSystem" where
  "session store model history =
     \<lparr>pdf_path = ''doc.pdf'', top_k = 5, pdf_processor = PDFProcessor_init 500 100,
      vector_store = store, llm = model, chat_history = history, chunks = vs_chunks store\<rparr>"

definition revenue_chunk :: Chunk where
  "revenue_chunk = \<lparr>text = ''Q4 2023 revenue reached $2.4 billion'', page_num = 2, chunk_id = 1\<rparr>"

definition revenue_store :: VectorStore where
  "revenue_store = \<lparr>index = Some [[1]], vs_chunks = [revenue_chunk], dimension = Some 1\<rparr>"

definition gemini_mode :: LLMInterface where
  "gemini_mode = \<lparr>use_openai = False, use_gemini = True\<rparr>"


section \<open>Refusal on empty retrieval\<close>

text \<open>
  C4. When \<open>search\<close> returns the empty list for the query of a call, \<open>answer_question\<close>
  returns exactly the string \<open>Not found in the document.\<close>, and the list of requests
  sent to a hosted model during the call is empty.
\<close>

theorem answer_question_empty_retrieval:
  assumes "search ext (vector_store self) (enhanced_query self query) (top_k self) = Inr []"
  shows "answer_question ext self query = Inr (''Not found in the document.'', self, [])"
  using assms by (simp add: answer_question_def refusal_def)

theorem answer_question_empty_retrieval_witness:
  "search (fixture [] [] (Responds (Some ''Quantum computing is ...'')))
      (vector_store (session revenue_store gemini_mode []))
      (enhanced_query (session revenue_store gemini_mode []) ''What is quantum computing?'')
      (top_k (session revenue_store gemini_mode [])) = Inr []
   \<and> answer_question (fixture [] [] (Responds (Some ''Quantum computing is ...'')))
        (session revenue_store gemini_mode []) ''What is quantum computing?''
      = Inr (''Not found in the document.'', session revenue_store gemini_mode [], [])"
proof -
  have h: "search (fixture [] [] (Responds (Some ''Quantum computing is ...'')))
      (vector_store (session revenue_store gemini_mode []))
      (enhanced_query (session revenue_store gemini_mode []) ''What is quantum computing?'')
      (top_k (session revenue_store gemini_mode [])) = Inr []"
    by (simp add: search_def session_def revenue_store_def fixture_def)
  show ?thesis
    using h answer_question_empty_retrieval [OF h] by simp
qed

section \<open>Failure of a hosted model\<close>

text \<open>A reply is a failure when the call raised or the response carries no text.\<close>

definition failed :: "reply \<Rightarrow> bool" where
  "failed r = (case r of Responds (Some t) \<Rightarrow> False | Responds None \<Rightarrow> True | Raises e \<Rightarrow> True)"

text \<open>The hosted model a session in Gemini or OpenAI mode calls.\<close>

definition active_model :: "collaborators \<Rightarrow> LLMInterface \<Rightarrow> request \<Rightarrow> reply" where
  "active_model ext model = (if use_gemini model then gemini ext else openai ext)"

text \<open>
  C9. When retrieval gives a non-empty result list, a hosted model is in use and its
  reply to the request is a failure, \<open>generate_answer\<close> returns what \<open>_fallback_answer\<close>
  gives on the same results, and \<open>answer_question\<close> returns that string (it does not
  raise) and records the two turns.
\<close>

theorem collaborator_failure_falls_back:
  assumes "search ext (vector_store self) (enhanced_query self query) (top_k self) = Inr results"
    and "results \<noteq> []"
    and "use_gemini (llm self) \<or> use_openai (llm self)"
    and "failed (active_model ext (llm self)
           \<lparr>req_context = build_context results, req_query = query,
            req_history = last_n 10 (chat_history self)\<rparr>)"
  shows "generate_answer ext (llm self) query results (chat_history self)
           = (fallback_answer results,
              [\<lparr>req_context = build_context results, req_query = query,
                req_history = last_n 10 (chat_history self)\<rparr>])
       \<and> answer_question ext self query
           = Inr (fallback_answer results,
                  self\<lparr>chat_history := chat_history self
                         @ [\<lparr>role = ''user'', content = query\<rparr>,
                            \<lparr>role = ''assistant'', content = fallback_answer results\<rparr>]\<rparr>,
                  [\<lparr>req_context = build_context results, req_query = query,
                    req_history = last_n 10 (chat_history self)\<rparr>])"
proof -
  let ?req = "\<lparr>req_context = build_context results, req_query = query,
               req_history = last_n 10 (chat_history self)\<rparr>"
  have g: "generate_answer ext (llm self) query results (chat_history self)
             = (fallback_answer results, [?req])"
    using assms(3,4)
    by (auto simp: generate_answer_def Let_def try_model_def failed_def active_model_def
        split: reply.splits option.splits)
  show ?thesis
    using assms(1,2) g by (simp add: answer_question_def)
qed

theorem collaborator_failure_falls_back_witness:
  "search (fixture [] [(0, 9/10)] (Raises ''429 RESOURCE_EXHAUSTED''))
      (vector_store (session revenue_store gemini_mode []))
      (enhanced_query (session revenue_store gemini_mode []) ''What was Q4 2023 revenue?'')
      (top_k (session revenue_store gemini_mode [])) = Inr [(revenue_chunk, 9/10)]
   \<and> use_gemini (llm (session revenue_store gemini_mode []))
   \<and> failed (active_model (fixture [] [(0, 9/10)] (Raises ''429 RESOURCE_EXHAUSTED''))
        (llm (session revenue_store gemini_mode []))
        \<lparr>req_context = build_context [(revenue_chunk, 9/10)],
         req_query = ''What was Q4 2023 revenue?'',
         req_history = last_n 10 (chat_history (session revenue_store gemini_mode []))\<rparr>)
   \<and> answer_question (fixture [] [(0, 9/10)] (Raises ''429 RESOURCE_EXHAUSTED''))
        (session revenue_store gemini_mode []) ''What was Q4 2023 revenue?''
      = Inr (''[p2:c1] Q4 2023 revenue reached $2.4 billion'',
             session revenue_store gemini_mode
               [\<lparr>role = ''user'', content = ''What was Q4 2023 revenue?''\<rparr>,
                \<lparr>role = ''assistant'', content = ''[p2:c1] Q4 2023 revenue reached $2.4 billion''\<rparr>],
             [\<lparr>req_context = ''[p2:c1] Q4 2023 revenue reached $2.4 billion'',
               req_query = ''What was Q4 2023 revenue?'', req_history = []\<rparr>])"
proof -
  let ?ext = "fixture [] [(0, 9/10)] (Raises ''429 RESOURCE_EXHAUSTED'')"
  let ?s = "session revenue_store gemini_mode []"
  let ?q = "''What was Q4 2023 revenue?''"
  let ?req = "\<lparr>req_context = build_context [(revenue_chunk, 9/10)], req_query = ?q,
               req_history = last_n 10 (chat_history ?s)\<rparr>"
  have h1: "search ?ext (vector_store ?s) (enhanced_query ?s ?q) (top_k ?s) = Inr [(revenue_chunk, 9/10)]"
    by (simp add: search_def session_def revenue_store_def fixture_def chunk_at_def)
  have h2: "[(revenue_chunk, 9/10 :: real)] \<noteq> []" by simp
  have h3: "use_gemini (llm ?s) \<or> use_openai (llm ?s)"
    by (simp add: session_def gemini_mode_def)
  have h4: "failed (active_model ?ext (llm ?s) ?req)"
    by (simp add: failed_def active_model_def session_def gemini_mode_def fixture_def)
  have c: "get_citation revenue_chunk = ''[p2:c1]''"
    by (simp add: get_citation_def revenue_chunk_def str_int_def str_nat.simps)
  have f: "fallback_answer [(revenue_chunk, 9/10)] = ''[p2:c1] Q4 2023 revenue reached $2.4 billion''"
    by (simp add: fallback_answer_def c) (simp add: revenue_chunk_def)
  have b: "build_context [(revenue_chunk, 9/10)] = ''[p2:c1] Q4 2023 revenue reached $2.4 billion''"
    by (simp add: build_context_def c) (simp add: revenue_chunk_def)
  show ?thesis
    using h1 h4 collaborator_failure_falls_back [OF h1 h2 h3 h4]
    by (simp add: f b) (simp add: session_def gemini_mode_def last_n_def)
qed

section \<open>The deterministic composer\<close>

text \<open>
  The citation pattern of the specification: \<open>[p<digits>:c<digits>]\<close>. \<open>citation_token\<close>
  matches one token at the start of a text, \<open>citation_count\<close> counts the positions of a
  text at which a token starts.
\<close>

definition is_digit :: "char \<Rightarrow> bool" where
  "is_digit c = (48 \<le> (of_char c :: nat) \<and> (of_char c :: nat) \<le> 57)"

definition exact :: "string \<Rightarrow> string \<Rightarrow> string option" where
  "exact p s = (if take (length p) s = p then Some (drop (length p) s) else None)"

definition digits :: "string \<Rightarrow> string option" where
  "digits s = (case s of [] \<Rightarrow> None | c # cs \<Rightarrow> if is_digit c then Some (dropWhile is_digit cs) else None)"

definition citation_token :: "string \<Rightarrow> string option" where
  "citation_token = seq [exact ''[p'', digits, exact '':c'', digits, exact '']'']"

fun citation_count :: "string \<Rightarrow> nat" where
  "citation_count [] = 0"
| "citation_count (c # cs) = (if citation_token (c # cs) = None then 0 else 1) + citation_count cs"


lemma is_digit_nth: "n < 10 \<Longrightarrow> is_digit (''0123456789'' ! n)"
proof -
  assume n: "n < 10"
  have "list_all is_digit ''0123456789''" by (simp add: is_digit_def)
  then have "\<forall>i < length ''0123456789''. is_digit (''0123456789'' ! i)"
    by (simp only: list_all_length)
  then show ?thesis using n by simp
qed

lemma str_nat_digits: "str_nat n \<noteq> [] \<and> list_all is_digit (str_nat n)"
proof (induction n rule: str_nat.induct)
  case (1 n)
  show ?case
  proof (cases "n < 10")
    case True
    then show ?thesis by (subst (1 2) str_nat.simps) (simp add: is_digit_nth)
  next
    case False
    then show ?thesis using 1 by (subst (1 2) str_nat.simps) (simp add: is_digit_nth)
  qed
qed

lemma digits_run:
  assumes "ds \<noteq> []" "list_all is_digit ds" "\<not> is_digit c"
  shows "digits (ds @ c # r) = Some (c # r)"
proof -
  obtain d ds' where d: "ds = d # ds'" using assms(1) by (cases ds) auto
  have "dropWhile is_digit (ds' @ c # r) = c # r"
    using assms(2,3) d by (simp add: dropWhile_append3 list_all_iff)
  then show ?thesis using assms(2) d by (simp add: digits_def)
qed

lemma citation_count_skip:
  "CHR ''['' \<notin> set xs \<Longrightarrow> citation_count (xs @ ys) = citation_count ys"
  by (induction xs) (auto simp: citation_token_def exact_def)

lemma digit_not_bracket: "list_all is_digit ds \<Longrightarrow> CHR ''['' \<notin> set ds"
  by (auto simp: list_all_iff is_digit_def)

lemma citation_count_citation:
  assumes "0 \<le> page_num c" "0 \<le> chunk_id c"
  shows "citation_count (get_citation c @ CHR '' '' # s) = 1 + citation_count s"
proof -
  let ?p = "str_nat (nat (page_num c))" and ?k = "str_nat (nat (chunk_id c))"
  have cit: "get_citation c = ''[p'' @ ?p @ '':c'' @ ?k @ '']''"
    using assms by (simp add: get_citation_def str_int_def)
  have p: "?p \<noteq> []" "list_all is_digit ?p" and k: "?k \<noteq> []" "list_all is_digit ?k"
    using str_nat_digits by blast+
  have nd: "\<not> is_digit CHR '':''" "\<not> is_digit CHR '']''" by (simp_all add: is_digit_def)
  have d1: "digits (?p @ CHR '':'' # CHR ''c'' # ?k @ CHR '']'' # CHR '' '' # s)
              = Some (CHR '':'' # CHR ''c'' # ?k @ CHR '']'' # CHR '' '' # s)"
    by (rule digits_run [OF p nd(1)])
  have d2: "digits (?k @ CHR '']'' # CHR '' '' # s) = Some (CHR '']'' # CHR '' '' # s)"
    by (rule digits_run [OF k nd(2)])
  have tok: "citation_token (get_citation c @ CHR '' '' # s) \<noteq> None"
    by (simp add: cit citation_token_def exact_def d1 d2)
  have nb: "CHR ''['' \<notin> set (CHR ''p'' # ?p @ '':c'' @ ?k @ '']'')"
    using digit_not_bracket [OF p(2)] digit_not_bracket [OF k(2)] by simp
  have rest: "citation_count ((CHR ''p'' # ?p @ '':c'' @ ?k @ '']'') @ CHR '' '' # s)
                = citation_count (CHR '' '' # s)"
    by (rule citation_count_skip [OF nb])
  have sp: "citation_count (CHR '' '' # s) = citation_count s"
    by (simp add: citation_token_def exact_def)
  have "citation_count (get_citation c @ CHR '' '' # s)
          = 1 + citation_count ((CHR ''p'' # ?p @ '':c'' @ ?k @ '']'') @ CHR '' '' # s)"
    using tok by (simp add: cit)
  then show ?thesis using rest sp by simp
qed

text \<open>The excerpt of a chunk that \<open>_fallback_answer\<close> shows.\<close>

definition snippet :: "Chunk \<Rightarrow> string" where
  "snippet c = (if 200 < length (text c) then take 200 (text c) @ ''...'' else text c)"

text \<open>
  C3 (amended). On a non-empty result list \<open>_fallback_answer\<close> returns exactly
  \<open>Not found in the document.\<close> when the top score is below 0.4; otherwise it returns the
  top chunk's citation, a space and the excerpt: the first 200 characters of the text
  followed by \<open>...\<close> when the text is longer than 200 characters, the whole text
  otherwise. With page and chunk numbers that are not negative, that answer holds one
  citation token more than the excerpt does, so exactly one when the excerpt holds none.
\<close>

theorem fallback_answer_top:
  "fallback_answer ((c, score) # rest)
     = (if score < 0.4 then ''Not found in the document.''
        else get_citation c @ '' '' @ snippet c)
   \<and> (0.4 \<le> score \<and> 0 \<le> page_num c \<and> 0 \<le> chunk_id c \<longrightarrow>
        citation_count (fallback_answer ((c, score) # rest)) = 1 + citation_count (snippet c))"
proof -
  have eq: "fallback_answer ((c, score) # rest)
     = (if score < 0.4 then ''Not found in the document.''
        else get_citation c @ '' '' @ snippet c)"
    by (simp add: fallback_answer_def refusal_def snippet_def Let_def)
  have "citation_count (get_citation c @ '' '' @ snippet c) = 1 + citation_count (snippet c)"
    if "0 \<le> page_num c" "0 \<le> chunk_id c"
    using citation_count_citation [OF that] by simp
  then show ?thesis using eq by auto
qed

text \<open>
  An excerpt that quotes a citation: the answer then holds two citation tokens, not one.
\<close>

theorem fallback_answer_two_tokens:
  "fallback_answer [(\<lparr>text = ''As cited in [p2:c7]'', page_num = 1, chunk_id = 0\<rparr>, 1/2)]
     = ''[p1:c0] As cited in [p2:c7]''
   \<and> citation_count (fallback_answer [(\<lparr>text = ''As cited in [p2:c7]'', page_num = 1, chunk_id = 0\<rparr>, 1/2)]) = 2"
proof -
  have f: "fallback_answer [(\<lparr>text = ''As cited in [p2:c7]'', page_num = 1, chunk_id = 0\<rparr>, 1/2)]
     = ''[p1:c0] As cited in [p2:c7]''"
    by (simp add: fallback_answer_def get_citation_def str_int_def str_nat.simps)
  have "citation_count ''[p1:c0] As cited in [p2:c7]'' = 2"
    by (simp add: citation_token_def exact_def digits_def is_digit_def)
  then show ?thesis using f by simp
qed

theorem fallback_answer_top_witness:
  "(0.4 \<le> (9/10 :: real) \<and> 0 \<le> page_num revenue_chunk \<and> 0 \<le> chunk_id revenue_chunk)
   \<and> fallback_answer [(revenue_chunk, 9/10)] = ''[p2:c1] Q4 2023 revenue reached $2.4 billion''
   \<and> citation_count (fallback_answer [(revenue_chunk, 9/10)]) = 1"
proof -
  have h: "0.4 \<le> (9/10 :: real) \<and> 0 \<le> page_num revenue_chunk \<and> 0 \<le> chunk_id revenue_chunk"
    by (simp add: revenue_chunk_def)
  have c: "get_citation revenue_chunk = ''[p2:c1]''"
    by (simp add: get_citation_def revenue_chunk_def str_int_def str_nat.simps)
  have s: "snippet revenue_chunk = ''Q4 2023 revenue reached $2.4 billion''"
    by (simp add: snippet_def revenue_chunk_def)
  have n: "citation_count (snippet revenue_chunk) = 0"
    unfolding s by (simp add: citation_token_def exact_def)
  have lt: "\<not> (9/10 :: real) < 0.4" by simp
  note t = fallback_answer_top [of revenue_chunk "9/10" "[]"]
  from t lt have a: "fallback_answer [(revenue_chunk, 9/10)]
      = get_citation revenue_chunk @ '' '' @ snippet revenue_chunk"
    by (simp only: if_False)
  from t h have b: "citation_count (fallback_answer [(revenue_chunk, 9/10)])
      = 1 + citation_count (snippet revenue_chunk)"
    by blast
  have a': "fallback_answer [(revenue_chunk, 9/10)] = ''[p2:c1] Q4 2023 revenue reached $2.4 billion''"
    unfolding a c s by simp
  have b': "citation_count (fallback_answer [(revenue_chunk, 9/10)]) = 1"
    unfolding b n by simp
  show ?thesis using h a' b' by blast
qed

section \<open>History of a session\<close>















section \<open>Search on fewer chunks than asked for\<close>

text \<open>
  C2. A store of one chunk asked for two results: the index fills the second place with
  the label \<open>-1\<close> (and the lowest score). The test \<open>idx < len(self.chunks)\<close> lets \<open>-1\<close>
  pass and \<open>self.chunks[-1]\<close> is the last chunk, so \<open>search\<close> returns two entries for the
  one stored chunk.
\<close>

theorem search_pads_with_last_chunk:
  "search (fixture [] [(0, 9/10), (-1, -340282346638528859811704183484516925440)] (Raises []))
      revenue_store ''What was Q4 2023 revenue?'' 2
     = Inr [(revenue_chunk, 9/10), (revenue_chunk, -340282346638528859811704183484516925440)]
   \<and> length (vs_chunks revenue_store) = 1"
  by (simp add: search_def revenue_store_def fixture_def chunk_at_def)

section \<open>A document without chunks\<close>

text \<open>
  C5. When chunking the document yields no chunk, the constructor of \<open>RAGSystem\<close> raises
  (\<open>IndexError\<close>, from \<open>build_index\<close>): the caller gets the exception and no session.
\<close>

theorem RAGSystem_init_zero_chunks:
  assumes "process_pdf (PDFProcessor_init csize coverlap) (reader ext path) = Some []"
  shows "RAGSystem_init ext path csize coverlap k gemini_key openai_key = Some (Inl IndexError)"
  using assms by (simp add: RAGSystem_init_def build_index_def)

theorem RAGSystem_init_zero_chunks_witness:
  "process_pdf (PDFProcessor_init 500 100)
      (reader (fixture [Extracted ''   '', ExtractRaises,
                        Extracted ''STRICTLY CONFIDENTIAL''] [] (Raises [])) ''scan.pdf'')
     = Some []
   \<and> RAGSystem_init (fixture [Extracted ''   '', ExtractRaises,
                        Extracted ''STRICTLY CONFIDENTIAL''] [] (Raises []))
        ''scan.pdf'' 500 100 5 None None = Some (Inl IndexError)"
proof -
  have b: "strip ''   '' = []" by code_simp
  have b2: "strip ''STRICTLY CONFIDENTIAL'' \<noteq> []" by code_simp
  have w: "clean_text ''STRICTLY CONFIDENTIAL'' = []"
    by code_simp
  have e: "extract_text_by_page [Extracted ''   '', ExtractRaises,
                        Extracted ''STRICTLY CONFIDENTIAL''] = []"
    unfolding extract_text_by_page_def extract_from.simps b w Let_def using b2 by simp
  have r: "reader (fixture [Extracted ''   '', ExtractRaises,
                        Extracted ''STRICTLY CONFIDENTIAL''] [] (Raises [])) ''scan.pdf''
           = [Extracted ''   '', ExtractRaises, Extracted ''STRICTLY CONFIDENTIAL'']"
    by (simp add: fixture_def)
  have h: "process_pdf (PDFProcessor_init 500 100)
      (reader (fixture [Extracted ''   '', ExtractRaises,
                        Extracted ''STRICTLY CONFIDENTIAL''] [] (Raises [])) ''scan.pdf'')
     = Some []"
    unfolding r process_pdf_def e by simp
  show ?thesis
    using h RAGSystem_init_zero_chunks [OF h] by blast
qed

section \<open>The chunking loop\<close>

text \<open>
  The chunk of round \<open>k\<close> of the loop, started at \<open>start\<close> with identifier \<open>cid\<close> and
  advancing by \<open>stp\<close>; \<open>rounds len stp\<close> is the number of rounds the loop makes over
  \<open>len\<close> remaining words.
\<close>

definition window :: "PDFProcessor \<Rightarrow> string list \<Rightarrow> int \<Rightarrow> int \<Rightarrow> int \<Rightarrow> int \<Rightarrow> nat \<Rightarrow> Chunk" where
  "window self words page cid start stp k =
     \<lparr>text = join '' '' (slice words (start + int k * stp) (start + int k * stp + chunk_size self)),
      page_num = page, chunk_id = cid + int k\<rparr>"

definition rounds :: "int \<Rightarrow> int \<Rightarrow> nat" where
  "rounds len stp = nat ((len + stp - 1) div stp)"

lemma rounds_done: "0 < stp \<Longrightarrow> len \<le> 0 \<Longrightarrow> rounds len stp = 0"
proof -
  assume a: "0 < stp" "len \<le> 0"
  have "(len + stp - 1) div stp \<le> 0"
  proof (cases "len + stp - 1 < 0")
    case True
    then have "(len + stp - 1) div stp < 0" using a(1) by (rule div_neg_pos_less0)
    then show ?thesis by simp
  next
    case False
    then have "(len + stp - 1) div stp = 0" using a by (intro div_pos_pos_trivial) auto
    then show ?thesis by simp
  qed
  then show ?thesis by (simp add: rounds_def)
qed

lemma rounds_step: "0 < stp \<Longrightarrow> 0 < len \<Longrightarrow> rounds len stp = Suc (rounds (len - stp) stp)"
proof -
  assume a: "0 < stp" "0 < len"
  have "(len + stp - 1) div stp = (len - 1) div stp + 1"
    using a(1) by (metis add.commute add_diff_eq div_add_self1 less_irrefl)
  moreover have "0 \<le> (len - 1) div stp" using a by (simp add: pos_imp_zdiv_nonneg_iff)
  ultimately show ?thesis by (simp add: rounds_def nat_add_distrib)
qed

lemma chunk_loop_runs:
  assumes "0 < chunk_size self - chunk_overlap self"
  shows "chunk_loop self words page cid start acc
     = Some (acc @ map (window self words page cid start (chunk_size self - chunk_overlap self))
                      [0..<rounds (int (length words) - start) (chunk_size self - chunk_overlap self)])"
proof (induction "nat (int (length words) - start)" arbitrary: start cid acc rule: less_induct)
  case less
  let ?stp = "chunk_size self - chunk_overlap self"
  show ?case
  proof (cases "start < int (length words)")
    case False
    then have "rounds (int (length words) - start) ?stp = 0"
      using assms by (simp add: rounds_done)
    then show ?thesis using False by (subst chunk_loop.simps) simp
  next
    case True
    let ?c = "\<lparr>text = join '' '' (slice words start (start + chunk_size self)), page_num = page, chunk_id = cid\<rparr>"
    have lt: "nat (int (length words) - (start + ?stp)) < nat (int (length words) - start)"
      using True assms by linarith
    have r: "rounds (int (length words) - start) ?stp
               = Suc (rounds (int (length words) - (start + ?stp)) ?stp)"
      using rounds_step [of ?stp "int (length words) - start"] True assms
      by (simp add: algebra_simps)
    have w0: "window self words page cid start ?stp 0 = ?c"
      by (simp add: window_def)
    have wS: "window self words page cid start ?stp (Suc k)
                = window self words page (cid + 1) (start + ?stp) ?stp k" for k
      by (simp add: window_def algebra_simps)
    have "chunk_loop self words page cid start acc
            = chunk_loop self words page (cid + 1) (start + ?stp) (acc @ [?c])"
      using True by (subst chunk_loop.simps) (simp add: Let_def)
    also have "\<dots> = Some ((acc @ [?c]) @ map (window self words page (cid + 1) (start + ?stp) ?stp)
                      [0..<rounds (int (length words) - (start + ?stp)) ?stp])"
      by (rule less [OF lt])
    also have "\<dots> = Some (acc @ map (window self words page cid start ?stp)
                      [0..<rounds (int (length words) - start) ?stp])"
      unfolding r by (simp add: upt_conv_Cons map_Suc_upt [symmetric] w0 wS del: upt_Suc)
    finally show ?thesis .
  qed
qed

lemma chunk_loop_never_returns:
  assumes "chunk_loop self words page cid start acc = Some y"
  shows "\<not> (chunk_size self \<le> chunk_overlap self \<and> start < int (length words))"
proof (rule chunk_loop.raw_induct
    [where P = "\<lambda>self words page cid start acc y.
                  \<not> (chunk_size self \<le> chunk_overlap self \<and> start < int (length words))",
     OF _ assms])
  fix f :: "PDFProcessor \<Rightarrow> string list \<Rightarrow> int \<Rightarrow> int \<Rightarrow> int \<Rightarrow> Chunk list \<Rightarrow> Chunk list option"
  fix self words page cid start acc y
  assume IH: "\<And>self words page cid start acc y. f self words page cid start acc = Some y \<Longrightarrow>
      \<not> (chunk_size self \<le> chunk_overlap self \<and> start < int (length words))"
  assume body: "(if start < int (length words)
      then let end = start + chunk_size self;
               chunk_words = slice words start end;
               joined = join '' '' chunk_words
           in f self words page (cid + 1) (start + (chunk_size self - chunk_overlap self))
                (acc @ [\<lparr>text = joined, page_num = page, chunk_id = cid\<rparr>])
      else Some acc) = Some y"
  show "\<not> (chunk_size self \<le> chunk_overlap self \<and> start < int (length words))"
  proof
    assume a: "chunk_size self \<le> chunk_overlap self \<and> start < int (length words)"
    then have "f self words page (cid + 1) (start + (chunk_size self - chunk_overlap self))
        (acc @ [\<lparr>text = join '' '' (slice words start (start + chunk_size self)),
                 page_num = page, chunk_id = cid\<rparr>]) = Some y"
      using body by (simp add: Let_def)
    then have "\<not> (chunk_size self \<le> chunk_overlap self
        \<and> start + (chunk_size self - chunk_overlap self) < int (length words))"
      by (rule IH)
    then show False using a by linarith
  qed
qed

lemma chunk_text_runs:
  assumes "chunk_overlap self < chunk_size self"
  shows "chunk_text self t page sid
     = Some (map (window self (split t) page sid 0 (chunk_size self - chunk_overlap self))
                 [0..<rounds (int (length (split t))) (chunk_size self - chunk_overlap self)])"
proof (cases "split t = []")
  case True
  then show ?thesis
    using assms by (simp add: chunk_text_def Let_def rounds_done)
next
  case False
  have "0 < chunk_size self - chunk_overlap self" using assms by simp
  from chunk_loop_runs [OF this, of "split t" page sid 0 "[]"] False
  show ?thesis by (simp add: chunk_text_def Let_def)
qed

lemma chunk_text_diverges:
  assumes "chunk_size self \<le> chunk_overlap self" "split t \<noteq> []"
  shows "chunk_text self t page sid = None"
proof (rule ccontr)
  assume "chunk_text self t page sid \<noteq> None"
  then obtain y where "chunk_text self t page sid = Some y" by auto
  then have "chunk_loop self (split t) page sid 0 [] = Some y"
    using assms(2) by (simp add: chunk_text_def Let_def)
  from chunk_loop_never_returns [OF this] show False using assms by simp
qed

lemma chunk_text_ids:
  assumes "chunk_text self t page sid = Some cks"
  shows "map chunk_id cks = map (\<lambda>k. sid + int k) [0..<length cks]"
proof (cases "split t = []")
  case True
  then show ?thesis using assms by (simp add: chunk_text_def Let_def)
next
  case False
  have "chunk_overlap self < chunk_size self"
    using chunk_text_diverges [OF _ False, of self page sid] assms by fastforce
  from chunk_text_runs [OF this, of t page sid] assms
  have "cks = map (window self (split t) page sid 0 (chunk_size self - chunk_overlap self))
                 [0..<rounds (int (length (split t))) (chunk_size self - chunk_overlap self)]"
    by simp
  then show ?thesis by (simp add: window_def comp_def)
qed

lemma map_int_upt_add:
  "map int [0..<a + b] = map int [0..<a] @ map (\<lambda>k. int a + int k) [0..<b]"
  by (induction b) simp_all

lemma process_pages_ids:
  assumes "process_pages self pages acc c = Some cks"
    and "map chunk_id acc = map int [0..<length acc]"
    and "c = int (length acc)"
  shows "map chunk_id cks = map int [0..<length cks]"
  using assms
proof (induction pages arbitrary: acc c)
  case Nil
  then show ?case by simp
next
  case (Cons pg pages)
  obtain page t where pg: "pg = (page, t)" by (cases pg)
  from Cons.prems(1) pg obtain pcs where
    pcs: "chunk_text self t page c = Some pcs"
    and rest: "process_pages self pages (acc @ pcs) (c + int (length pcs)) = Some cks"
    by (auto split: option.splits)
  have ids: "map chunk_id pcs = map (\<lambda>k. c + int k) [0..<length pcs]"
    by (rule chunk_text_ids [OF pcs])
  have "map chunk_id (acc @ pcs) = map int [0..<length (acc @ pcs)]"
    using Cons.prems(2,3) ids by (simp add: map_int_upt_add)
  moreover have "c + int (length pcs) = int (length (acc @ pcs))"
    using Cons.prems(3) by simp
  ultimately show ?case using Cons.IH [OF rest] by blast
qed

lemma process_pages_returns:
  assumes "chunk_overlap self < chunk_size self"
  shows "\<exists>cks. process_pages self pages acc c = Some cks"
proof (induction pages arbitrary: acc c)
  case Nil
  then show ?case by simp
next
  case (Cons pg pages)
  obtain page t where pg: "pg = (page, t)" by (cases pg)
  show ?case using Cons.IH by (simp add: pg chunk_text_runs [OF assms])
qed

text \<open>
  C6. Whenever \<open>process_pdf\<close> returns, the chunk identifiers of the whole document are
  \<open>0, 1, 2, ...\<close> in the order of the chunks: contiguous from 0, strictly increasing and
  numbered across the pages (a page without chunks adds nothing). With
  \<open>chunk_size > chunk_overlap\<close> it does return.
\<close>

theorem process_pdf_chunk_ids:
  "(\<forall>cks. process_pdf self pdf = Some cks \<longrightarrow>
       map chunk_id cks = map int [0..<length cks] \<and> sorted_wrt (<) (map chunk_id cks))
   \<and> (chunk_overlap self < chunk_size self \<longrightarrow> (\<exists>cks. process_pdf self pdf = Some cks))"
proof -
  have s: "sorted_wrt (<) (map int [0..<n])" for n
    by (simp add: sorted_wrt_map sorted_wrt_iff_nth_less)
  have "map chunk_id cks = map int [0..<length cks]" if "process_pdf self pdf = Some cks" for cks
    using process_pages_ids [of self "extract_text_by_page pdf" "[]" 0 cks] that
    by (simp add: process_pdf_def)
  then show ?thesis
    using s process_pages_returns [of self "extract_text_by_page pdf" "[]" 0]
    by (auto simp: process_pdf_def)
qed

section \<open>Sliding windows\<close>

text \<open>
  The chunker as the specification words it: the windows of \<open>w\<close> tokens taken every
  \<open>stp\<close> tokens, each joined with single spaces, numbered from \<open>sid\<close>. The last
  windows hold the tokens that are left, without padding.
\<close>

definition window_chunks :: "nat \<Rightarrow> nat \<Rightarrow> string list \<Rightarrow> int \<Rightarrow> int \<Rightarrow> Chunk list" where
  "window_chunks w stp tokens page sid =
     map (\<lambda>k. \<lparr>text = join '' '' (take w (drop (k * stp) tokens)), page_num = page,
                chunk_id = sid + int k\<rparr>)
         [0..<(length tokens + stp - 1) div stp]"

lemma take_min_len: "take (min (length ys) m) ys = take m ys"
  by (simp add: min_def)

lemma slice_nonneg:
  "0 \<le> a \<Longrightarrow> 0 \<le> b \<Longrightarrow> slice xs a (a + b) = take (nat b) (drop (nat a) xs)"
proof -
  assume a: "0 \<le> a" "0 \<le> b"
  show ?thesis
  proof (cases "nat a \<le> length xs")
    case True
    have "min (length xs) (nat (a + b)) - nat a = min (length xs - nat a) (nat b)"
      using a True by (auto simp: nat_add_distrib min_def)
    then show ?thesis
      using a True take_min_len [of "drop (nat a) xs" "nat b"]
      by (simp add: slice_def slice_index_def Let_def)
  next
    case False
    then show ?thesis using a by (simp add: slice_def slice_index_def Let_def)
  qed
qed

lemma rounds_nat:
  "0 < s \<Longrightarrow> rounds (int n) (int s) = (n + s - 1) div s"
proof -
  assume "0 < s"
  then have e: "int n + int s - 1 = int (n + s - 1)" by (simp add: of_nat_diff)
  have "(int n + int s - 1) div int s = int ((n + s - 1) div s)"
    unfolding e by (simp only: zdiv_int)
  then show ?thesis by (simp only: rounds_def nat_int)
qed

lemma split_tokens: "w \<in> set (split s) \<Longrightarrow> w \<noteq> [] \<and> (\<forall>c\<in>set w. \<not> isspace c)"
proof (induction s rule: split.induct)
  case (1 s)
  show ?case
  proof (cases "dropWhile isspace s")
    case Nil
    have "split s = []" by (subst split.simps) (simp only: Nil list.case)
    then show ?thesis using 1(2) by simp
  next
    case (Cons c cs)
    then have c: "\<not> isspace c"
      by (metis hd_dropWhile list.distinct(1) list.sel(1))
    from 1(2) Cons consider "w = c # takeWhile (\<lambda>x. \<not> isspace x) cs"
      | "w \<in> set (split (dropWhile (\<lambda>x. \<not> isspace x) cs))"
      by (subst (asm) split.simps) (simp only: list.case, auto)
    then show ?thesis
    proof cases
      case 1
      then show ?thesis using c by (auto dest: set_takeWhileD)
    next
      case 2
      then show ?thesis using "1.IH" [OF Cons] by blast
    qed
  qed
qed

lemma window_take:
  assumes "0 \<le> chunk_overlap self" "chunk_overlap self < chunk_size self"
  shows "window self words page sid 0 (chunk_size self - chunk_overlap self) k
     = \<lparr>text = join '' '' (take (nat (chunk_size self))
                (drop (k * nat (chunk_size self - chunk_overlap self)) words)),
        page_num = page, chunk_id = sid + int k\<rparr>"
proof -
  let ?stp = "chunk_size self - chunk_overlap self"
  have a: "0 \<le> int k * ?stp" using assms by simp
  have b: "0 \<le> chunk_size self" using assms by simp
  have n: "nat (int k * ?stp) = k * nat ?stp"
    using assms by (simp add: nat_mult_distrib)
  show ?thesis
    using slice_nonneg [OF a b, of words] by (simp add: window_def n)
qed

text \<open>
  C7. With \<open>chunk_size > chunk_overlap \<ge> 0\<close>, \<open>chunk_text\<close> returns the windows of
  \<open>chunk_size\<close> tokens taken every \<open>chunk_size - chunk_overlap\<close> tokens of the split
  text, each joined with single spaces; a text without tokens gives no chunk; and the
  tokens of \<open>split\<close> are non-empty and free of whitespace.
\<close>

theorem chunk_text_windows:
  "(0 \<le> chunk_overlap self \<and> chunk_overlap self < chunk_size self \<longrightarrow>
      chunk_text self t page sid
        = Some (window_chunks (nat (chunk_size self)) (nat (chunk_size self - chunk_overlap self))
                  (split t) page sid))
   \<and> (split t = [] \<longrightarrow> chunk_text self t page sid = Some [])
   \<and> (\<forall>w\<in>set (split t). w \<noteq> [] \<and> (\<forall>c\<in>set w. \<not> isspace c))"
proof -
  have runs: "chunk_text self t page sid
        = Some (window_chunks (nat (chunk_size self)) (nat (chunk_size self - chunk_overlap self))
                  (split t) page sid)"
    if h: "0 \<le> chunk_overlap self" "chunk_overlap self < chunk_size self"
  proof -
    let ?stp = "chunk_size self - chunk_overlap self"
    have s: "0 < nat ?stp" and i: "int (nat ?stp) = ?stp" using h by simp_all
    have r: "rounds (int (length (split t))) ?stp = (length (split t) + nat ?stp - 1) div nat ?stp"
      using rounds_nat [OF s, of "length (split t)"] by (simp only: i)
    have w: "window self (split t) page sid 0 ?stp
        = (\<lambda>k. \<lparr>text = join '' '' (take (nat (chunk_size self)) (drop (k * nat ?stp) (split t))),
                  page_num = page, chunk_id = sid + int k\<rparr>)"
      by (rule ext) (rule window_take [OF h])
    show ?thesis
      unfolding chunk_text_runs [OF h(2)] r window_chunks_def w ..
  qed
  have empty: "chunk_text self t page sid = Some []" if "split t = []"
    using that by (simp add: chunk_text_def Let_def)
  show ?thesis using runs empty split_tokens by blast
qed

theorem process_pdf_chunk_ids_witness:
  "chunk_overlap (PDFProcessor_init 2 1) < chunk_size (PDFProcessor_init 2 1)
   \<and> process_pdf (PDFProcessor_init 2 1) [Extracted ''a b c'', ExtractRaises, Extracted ''d e'']
       = Some [\<lparr>text = ''a b'', page_num = 1, chunk_id = 0\<rparr>,
               \<lparr>text = ''b c'', page_num = 1, chunk_id = 1\<rparr>,
               \<lparr>text = ''c'', page_num = 1, chunk_id = 2\<rparr>,
               \<lparr>text = ''d e'', page_num = 3, chunk_id = 3\<rparr>,
               \<lparr>text = ''e'', page_num = 3, chunk_id = 4\<rparr>]
   \<and> map chunk_id [\<lparr>text = ''a b'', page_num = 1, chunk_id = 0\<rparr>,
               \<lparr>text = ''b c'', page_num = 1, chunk_id = 1\<rparr>,
               \<lparr>text = ''c'', page_num = 1, chunk_id = 2\<rparr>,
               \<lparr>text = ''d e'', page_num = 3, chunk_id = 3\<rparr>,
               \<lparr>text = ''e'', page_num = 3, chunk_id = 4\<rparr>] = map int [0..<5]"
proof -
  let ?cks = "[\<lparr>text = ''a b'', page_num = 1, chunk_id = 0\<rparr>,
               \<lparr>text = ''b c'', page_num = 1, chunk_id = 1\<rparr>,
               \<lparr>text = ''c'', page_num = 1, chunk_id = 2\<rparr>,
               \<lparr>text = ''d e'', page_num = 3, chunk_id = 3\<rparr>,
               \<lparr>text = ''e'', page_num = 3, chunk_id = 4\<rparr>]"
  have h: "chunk_overlap (PDFProcessor_init 2 1) < chunk_size (PDFProcessor_init 2 1)"
    by (simp add: PDFProcessor_init_def)
  have ev: "process_pdf (PDFProcessor_init 2 1) [Extracted ''a b c'', ExtractRaises, Extracted ''d e'']
       = Some ?cks"
    by code_simp
  have l: "length ?cks = 5" by simp
  have "map chunk_id ?cks = map int [0..<length ?cks]"
    using process_pdf_chunk_ids
      [of "PDFProcessor_init 2 1" "[Extracted ''a b c'', ExtractRaises, Extracted ''d e'']"] ev
    by blast
  then have "map chunk_id ?cks = map int [0..<5]" by (simp only: l)
  then show ?thesis using h ev by blast
qed

theorem chunk_text_windows_witness:
  "(0 \<le> chunk_overlap (PDFProcessor_init 2 1)
      \<and> chunk_overlap (PDFProcessor_init 2 1) < chunk_size (PDFProcessor_init 2 1))
   \<and> chunk_text (PDFProcessor_init 2 1) ''a  b c'' 1 7
       = Some [\<lparr>text = ''a b'', page_num = 1, chunk_id = 7\<rparr>,
               \<lparr>text = ''b c'', page_num = 1, chunk_id = 8\<rparr>,
               \<lparr>text = ''c'', page_num = 1, chunk_id = 9\<rparr>]
   \<and> split ''   '' = []
   \<and> chunk_text (PDFProcessor_init 2 1) ''   '' 1 7 = Some []
   \<and> split ''a  b c'' = [''a'', ''b'', ''c'']"
proof -
  have h: "0 \<le> chunk_overlap (PDFProcessor_init 2 1)
      \<and> chunk_overlap (PDFProcessor_init 2 1) < chunk_size (PDFProcessor_init 2 1)"
    by (simp add: PDFProcessor_init_def)
  have s: "split ''a  b c'' = [''a'', ''b'', ''c'']" by code_simp
  have e: "split ''   '' = []" by code_simp
  have n: "nat (chunk_size (PDFProcessor_init 2 1)) = 2"
    "nat (chunk_size (PDFProcessor_init 2 1) - chunk_overlap (PDFProcessor_init 2 1)) = 1"
    by (simp_all add: PDFProcessor_init_def)
  have w: "window_chunks 2 1 [''a'', ''b'', ''c''] 1 7
       = [\<lparr>text = ''a b'', page_num = 1, chunk_id = 7\<rparr>,
          \<lparr>text = ''b c'', page_num = 1, chunk_id = 8\<rparr>,
          \<lparr>text = ''c'', page_num = 1, chunk_id = 9\<rparr>]"
    by code_simp
  have a: "chunk_text (PDFProcessor_init 2 1) ''a  b c'' 1 7
       = Some (window_chunks 2 1 [''a'', ''b'', ''c''] 1 7)"
    using chunk_text_windows [of "PDFProcessor_init 2 1" "''a  b c''" 1 7] h
    unfolding n s by blast
  have b: "chunk_text (PDFProcessor_init 2 1) ''   '' 1 7 = Some []"
    using chunk_text_windows [of "PDFProcessor_init 2 1" "''   ''" 1 7] e by blast
  show ?thesis using h a b e s unfolding w by blast
qed

section \<open>Termination of chunking\<close>

lemma strip_split: "strip x \<noteq> [] \<Longrightarrow> split (strip x) \<noteq> []"
proof -
  assume a: "strip x \<noteq> []"
  have "dropWhile isspace (strip x) = strip x"
    by (simp add: strip_def lstrip_def dropWhile_idem)
  moreover obtain c cs where "strip x = c # cs" using a by (cases "strip x") auto
  ultimately have "dropWhile isspace (strip x) = c # cs" by simp
  then show ?thesis by (subst split.simps) (simp only: list.case, simp)
qed

lemma extract_from_tokens: "(p, t) \<in> set (extract_from i pages) \<Longrightarrow> split t \<noteq> []"
proof (induction i pages rule: extract_from.induct)
  case (1 i)
  then show ?case by simp
next
  case (2 i ps)
  then show ?case by simp
next
  case (3 i x ps)
  show ?case
  proof (cases "strip x \<noteq> [] \<and> clean_text x \<noteq> []")
    case True
    then have "(p, t) = (i, clean_text x) \<or> (p, t) \<in> set (extract_from (i + 1) ps)"
      using 3(4) by (simp add: Let_def)
    then show ?thesis
    proof
      assume "(p, t) = (i, clean_text x)"
      then show ?thesis using True strip_split by (simp add: clean_text_def)
    next
      assume "(p, t) \<in> set (extract_from (i + 1) ps)"
      then show ?thesis using 3(1) True by (simp add: Let_def)
    qed
  next
    case False
    then have "(p, t) \<in> set (extract_from (i + 1) ps)"
      using 3(4) by (auto simp: Let_def split: if_splits)
    then show ?thesis using 3(2,3) False by (auto simp: Let_def)
  qed
qed

lemma process_pdf_diverges:
  assumes "chunk_size self \<le> chunk_overlap self" "extract_text_by_page pdf \<noteq> []"
  shows "process_pdf self pdf = None"
proof -
  obtain p t rest where e: "extract_text_by_page pdf = (p, t) # rest"
    using assms(2) by (cases "extract_text_by_page pdf") auto
  then have "(p, t) \<in> set (extract_from 1 pdf)" by (simp add: extract_text_by_page_def)
  then have "split t \<noteq> []" by (rule extract_from_tokens)
  then have "chunk_text self t p 0 = None" using assms(1) by (simp add: chunk_text_diverges)
  then show ?thesis by (simp add: process_pdf_def e)
qed

text \<open>
  C10. With \<open>chunk_size > chunk_overlap \<ge> 0\<close> the loop of \<open>chunk_text\<close> ends and a chunk
  list is returned. With \<open>chunk_overlap \<ge> chunk_size\<close> and at least one token the loop
  never gets past the token list: \<open>chunk_text\<close> does not return. Nothing checks the two
  parameters: on a document with extractable text the constructor of \<open>RAGSystem\<close> and
  \<open>main\<close> neither reject them nor return, they run into that loop.
\<close>

theorem chunk_text_termination:
  "(0 \<le> chunk_overlap self \<and> chunk_overlap self < chunk_size self \<longrightarrow>
      (\<exists>cks. chunk_text self t page sid = Some cks))
   \<and> (chunk_size self \<le> chunk_overlap self \<and> split t \<noteq> [] \<longrightarrow>
        chunk_text self t page sid = None)
   \<and> (csize \<le> coverlap \<and> extract_text_by_page (reader ext path) \<noteq> [] \<longrightarrow>
        RAGSystem_init ext path csize coverlap k gemini_key openai_key = None)
   \<and> (csize \<le> coverlap \<and> extract_text_by_page (reader ext path) \<noteq> []
        \<and> path \<noteq> [] \<and> path_exists ext path \<longrightarrow>
        main ext \<lparr>arg_pdf_path = Some path, arg_chunk_size = csize,
                  arg_chunk_overlap = coverlap, arg_top_k = k\<rparr> = None)"
proof -
  have a: "\<exists>cks. chunk_text self t page sid = Some cks"
    if "chunk_overlap self < chunk_size self"
    using chunk_text_runs [OF that] by blast
  have b: "chunk_text self t page sid = None"
    if "chunk_size self \<le> chunk_overlap self" "split t \<noteq> []"
    using that by (rule chunk_text_diverges)
  have c: "RAGSystem_init ext path csize coverlap k g oa = None"
    if "csize \<le> coverlap" "extract_text_by_page (reader ext path) \<noteq> []" for k g oa
  proof -
    have "process_pdf (PDFProcessor_init csize coverlap) (reader ext path) = None"
      using that by (intro process_pdf_diverges) (simp_all add: PDFProcessor_init_def)
    then show ?thesis by (simp add: RAGSystem_init_def)
  qed
  have d: "main ext \<lparr>arg_pdf_path = Some path, arg_chunk_size = csize,
                  arg_chunk_overlap = coverlap, arg_top_k = k\<rparr> = None"
    if "csize \<le> coverlap" "extract_text_by_page (reader ext path) \<noteq> []"
       "path \<noteq> []" "path_exists ext path"
    using c [OF that(1,2)] that(3,4) by (simp add: main_def truthy_def)
  show ?thesis using a b c [of k gemini_key openai_key] d by (intro conjI impI) blast+
qed

theorem chunk_text_termination_witness:
  "(0 \<le> chunk_overlap (PDFProcessor_init 2 1)
      \<and> chunk_overlap (PDFProcessor_init 2 1) < chunk_size (PDFProcessor_init 2 1))
   \<and> (\<exists>cks. chunk_text (PDFProcessor_init 2 1) ''a b c'' 1 0 = Some cks)
   \<and> (chunk_size (PDFProcessor_init 2 2) \<le> chunk_overlap (PDFProcessor_init 2 2)
        \<and> split ''a b c'' \<noteq> [])
   \<and> chunk_text (PDFProcessor_init 2 2) ''a b c'' 1 0 = None
   \<and> ((100::int) \<le> 100
        \<and> extract_text_by_page (reader (fixture [Extracted ''a b c''] [] (Raises [])) ''doc.pdf'') \<noteq> []
        \<and> ''doc.pdf'' \<noteq> [] \<and> path_exists (fixture [Extracted ''a b c''] [] (Raises [])) ''doc.pdf'')
   \<and> RAGSystem_init (fixture [Extracted ''a b c''] [] (Raises [])) ''doc.pdf'' 100 100 5 None None = None
   \<and> main (fixture [Extracted ''a b c''] [] (Raises []))
        \<lparr>arg_pdf_path = Some ''doc.pdf'', arg_chunk_size = 100, arg_chunk_overlap = 100,
         arg_top_k = 5\<rparr> = None"
proof -
  let ?ext = "fixture [Extracted ''a b c''] [] (Raises [])"
  have h1: "0 \<le> chunk_overlap (PDFProcessor_init 2 1)
      \<and> chunk_overlap (PDFProcessor_init 2 1) < chunk_size (PDFProcessor_init 2 1)"
    by (simp add: PDFProcessor_init_def)
  have s: "split ''a b c'' = [''a'', ''b'', ''c'']" by code_simp
  have h2: "chunk_size (PDFProcessor_init 2 2) \<le> chunk_overlap (PDFProcessor_init 2 2)
        \<and> split ''a b c'' \<noteq> []"
    by (simp add: PDFProcessor_init_def s)
  have e: "extract_text_by_page [Extracted ''a b c''] = [(1, ''a b c'')]" by code_simp
  have h3: "(100::int) \<le> 100
        \<and> extract_text_by_page (reader ?ext ''doc.pdf'') \<noteq> []
        \<and> ''doc.pdf'' \<noteq> [] \<and> path_exists ?ext ''doc.pdf''"
    by (simp add: fixture_def e)
  note t1 = chunk_text_termination
    [where self = "PDFProcessor_init 2 1" and t = "''a b c''" and page = 1 and sid = 0
       and csize = 100 and coverlap = 100 and ext = ?ext and path = "''doc.pdf''" and k = 5
       and gemini_key = None and openai_key = None]
  note t2 = chunk_text_termination
    [where self = "PDFProcessor_init 2 2" and t = "''a b c''" and page = 1 and sid = 0
       and csize = 100 and coverlap = 100 and ext = ?ext and path = "''doc.pdf''" and k = 5
       and gemini_key = None and openai_key = None]
  have a: "\<exists>cks. chunk_text (PDFProcessor_init 2 1) ''a b c'' 1 0 = Some cks"
    using t1 h1 by blast
  have b: "chunk_text (PDFProcessor_init 2 2) ''a b c'' 1 0 = None"
    using t2 h2 by blast
  have c: "RAGSystem_init ?ext ''doc.pdf'' 100 100 5 None None = None"
    using t1 h3 by blast
  have d: "main ?ext \<lparr>arg_pdf_path = Some ''doc.pdf'', arg_chunk_size = 100,
      arg_chunk_overlap = 100, arg_top_k = 5\<rparr> = None"
    using t1 h3 by blast
  show ?thesis using h1 h2 h3 a b c d by blast
qed

section \<open>Cleaning a cleaned text\<close>

text \<open>
  What a second cleaning meets. A text is free of artifacts when none of the three
  patterns of \<open>clean_text\<close> matches at any of its positions; it is single-spaced when every
  whitespace character in it is a space that no whitespace character follows; it is
  trimmed when it neither begins nor ends with whitespace.
\<close>

fun tails :: "'a list \<Rightarrow> 'a list list" where
  "tails [] = [[]]"
| "tails (x # xs) = (x # xs) # tails xs"

definition artifact_free :: "string \<Rightarrow> bool" where
  "artifact_free t =
     list_all (\<lambda>u. watermark u = None \<and> home_outline u = None \<and> hamburger u = None) (tails t)"

fun single_spaced :: "string \<Rightarrow> bool" where
  "single_spaced [] = True"
| "single_spaced [c] = (isspace c \<longrightarrow> c = CHR '' '')"
| "single_spaced (c # d # cs) =
     ((isspace c \<longrightarrow> c = CHR '' '' \<and> \<not> isspace d) \<and> single_spaced (d # cs))"

definition trimmed :: "string \<Rightarrow> bool" where
  "trimmed t = (t = [] \<or> (\<not> isspace (hd t) \<and> \<not> isspace (last t)))"

lemma re_sub_del_none: "list_all (\<lambda>u. m u = None) (tails t) \<Longrightarrow> re_sub_del m t = t"
  by (induction t) auto

lemma isspace_space: "isspace CHR '' ''"
  by (simp add: isspace_def)

lemma single_spaced_Cons:
  "single_spaced (x # t)
     = ((isspace x \<longrightarrow> x = CHR '' '' \<and> (t \<noteq> [] \<longrightarrow> \<not> isspace (hd t))) \<and> single_spaced t)"
  by (cases t) auto

lemma single_spaced_dropWhile: "single_spaced t \<Longrightarrow> single_spaced (dropWhile P t)"
  by (induction t) (auto simp: single_spaced_Cons)

lemma single_spaced_prefix: "single_spaced (xs @ ys) \<Longrightarrow> single_spaced xs"
proof (induction xs)
  case Nil
  then show ?case by simp
next
  case (Cons x xs)
  then show ?case by (cases xs) (auto simp: single_spaced_Cons)
qed

lemma collapse_hd: "r \<noteq> [] \<Longrightarrow> \<not> isspace (hd r) \<Longrightarrow> collapse r \<noteq> [] \<and> hd (collapse r) = hd r"
  by (cases r) auto

lemma collapse_single_spaced: "single_spaced (collapse s)"
proof (induction s rule: collapse.induct)
  case 1
  then show ?case by simp
next
  case (2 c cs)
  show ?case
  proof (cases "isspace c")
    case True
    let ?r = "dropWhile isspace cs"
    have "collapse ?r \<noteq> [] \<longrightarrow> \<not> isspace (hd (collapse ?r))"
    proof (cases "?r = []")
      case True
      then have "collapse ?r = []" by (simp only: collapse.simps)
      then show ?thesis by blast
    next
      case False
      then have "\<not> isspace (hd ?r)" by (rule hd_dropWhile)
      then show ?thesis using collapse_hd [OF False] by simp
    qed
    then show ?thesis using True 2(1) by (simp add: single_spaced_Cons)
  next
    case False
    then show ?thesis using 2(2) by (simp add: single_spaced_Cons)
  qed
qed

lemma single_spaced_collapse: "single_spaced t \<Longrightarrow> collapse t = t"
  by (induction t rule: single_spaced.induct) auto

lemma trimmed_strip: "trimmed (strip x)"
proof (cases "strip x = []")
  case True
  then show ?thesis by (simp add: trimmed_def)
next
  case False
  let ?y = "rev (dropWhile isspace (rev x))"
  have z: "strip x = dropWhile isspace ?y" by (simp add: strip_def lstrip_def rstrip_def)
  have h: "\<not> isspace (hd (strip x))" using False unfolding z by (rule hd_dropWhile)
  have y: "?y = takeWhile isspace ?y @ strip x" unfolding z by simp
  have "last ?y = last (strip x)" using False by (subst y) simp
  moreover have "dropWhile isspace (rev x) \<noteq> []"
  proof
    assume e: "dropWhile isspace (rev x) = []"
    have "strip x = []" unfolding z e by simp
    with False show False ..
  qed
  then have "\<not> isspace (last ?y)" by (simp add: last_rev hd_dropWhile)
  ultimately show ?thesis using h False by (simp add: trimmed_def)
qed

lemma strip_trimmed: "trimmed t \<Longrightarrow> strip t = t"
proof (cases "t = []")
  case True
  then show ?thesis by (simp add: strip_def lstrip_def rstrip_def)
next
  case False
  assume "trimmed t"
  then have a: "\<not> isspace (hd t)" "\<not> isspace (last t)" using False by (simp_all add: trimmed_def)
  have "dropWhile isspace (rev t) = rev t"
    using a(2) False by (simp add: dropWhile_eq_self_iff hd_rev)
  moreover have "dropWhile isspace t = t"
    using a(1) by (simp add: dropWhile_eq_self_iff)
  ultimately show ?thesis by (simp add: strip_def lstrip_def rstrip_def)
qed


lemma artifact_free_parts:
  assumes "artifact_free t"
  shows "list_all (\<lambda>u. watermark u = None) (tails t)"
    and "list_all (\<lambda>u. home_outline u = None) (tails t)"
    and "list_all (\<lambda>u. hamburger u = None) (tails t)"
  using assms by (simp_all add: artifact_free_def list_all_iff)

lemma clean_text_fixed:
  assumes "artifact_free t" and "single_spaced t" and "trimmed t"
  shows "clean_text t = t"
proof -
  have "re_sub_del watermark t = t"
    by (rule re_sub_del_none [OF artifact_free_parts(1) [OF assms(1)]])
  moreover have "re_sub_del home_outline t = t"
    by (rule re_sub_del_none [OF artifact_free_parts(2) [OF assms(1)]])
  moreover have "re_sub_del hamburger t = t"
    by (rule re_sub_del_none [OF artifact_free_parts(3) [OF assms(1)]])
  ultimately show ?thesis
    by (simp only: clean_text_def single_spaced_collapse [OF assms(2)] strip_trimmed [OF assms(3)])
qed

lemma clean_text_normalised: "single_spaced (clean_text s) \<and> trimmed (clean_text s)"
proof -
  let ?c = "collapse (re_sub_del hamburger (re_sub_del home_outline (re_sub_del watermark s)))"
  have c: "single_spaced ?c" by (rule collapse_single_spaced)
  have "rev (dropWhile isspace (rev ?c)) @ rev (takeWhile isspace (rev ?c)) = ?c"
    by (simp only: rev_append [symmetric] takeWhile_dropWhile_id rev_rev_ident)
  then have "single_spaced (rstrip ?c)"
    using c single_spaced_prefix [of "rev (dropWhile isspace (rev ?c))" "rev (takeWhile isspace (rev ?c))"]
    by (simp only: rstrip_def)
  then have "single_spaced (strip ?c)"
    unfolding strip_def lstrip_def by (rule single_spaced_dropWhile)
  then show ?thesis
    using trimmed_strip [of ?c] by (simp only: clean_text_def simp_thms)
qed

text \<open>
  C8 (amended). The text that \<open>clean_text\<close> returns is single-spaced and trimmed, and
  cleaning it again returns it unchanged whenever none of the three artifact patterns
  occurs in it. The three deletions are one pass each, and deleting one artifact can join
  the text around it into another, so the condition is needed.
\<close>

theorem clean_text_again:
  "single_spaced (clean_text s) \<and> trimmed (clean_text s)
   \<and> (artifact_free (clean_text s) \<longrightarrow> clean_text (clean_text s) = clean_text s)"
  using clean_text_normalised [of s] clean_text_fixed [of "clean_text s"] by blast

text \<open>
  Deleting \<open>Home outline\<close> from between \<open>STRICTLY\<close> and \<open>CONFIDENTIAL\<close> leaves the
  watermark, which only a second cleaning deletes: the two cleanings differ.
\<close>

theorem clean_text_not_idempotent:
  "clean_text ''STRICTLY Home outline CONFIDENTIAL'' = ''STRICTLY CONFIDENTIAL''
   \<and> clean_text (clean_text ''STRICTLY Home outline CONFIDENTIAL'') = []"
proof
  show "clean_text ''STRICTLY Home outline CONFIDENTIAL'' = ''STRICTLY CONFIDENTIAL''"
    by code_simp
  show "clean_text (clean_text ''STRICTLY Home outline CONFIDENTIAL'') = []"
    by code_simp
qed

theorem clean_text_again_witness:
  "clean_text ''  Hello   STRICTLY CONFIDENTIAL  world '' = ''Hello world''
   \<and> artifact_free (clean_text ''  Hello   STRICTLY CONFIDENTIAL  world '')
   \<and> clean_text (clean_text ''  Hello   STRICTLY CONFIDENTIAL  world '')
       = clean_text ''  Hello   STRICTLY CONFIDENTIAL  world ''"
proof -
  have c: "clean_text ''  Hello   STRICTLY CONFIDENTIAL  world '' = ''Hello world''"
    by code_simp
  have a: "artifact_free ''Hello world''"
    by code_simp
  note t = clean_text_again [of "''  Hello   STRICTLY CONFIDENTIAL  world ''"]
  from t a c show ?thesis by (simp only: simp_thms)
qed

end
